theory Spec2Isabelle
  imports Main
begin

section \<open>Python text and the built-ins the script calls\<close>

text \<open>
  The script \<^verbatim>\<open>internal/tui/scripts/check_theme_parity.py\<close> works on Python \<^verbatim>\<open>str\<close>
  values. A \<^verbatim>\<open>str\<close> is a sequence of Unicode code points, so it is modelled as a list of
  natural numbers (one per code point); \<open>lit\<close> turns an ASCII literal into that form.
\<close>

type_synonym pystr = "nat list"

definition lit :: "string \<Rightarrow> pystr" where
  "lit s = map of_char s"

abbreviation NEWLINE :: nat where "NEWLINE \<equiv> 10"
abbreviation CR :: nat where "CR \<equiv> 13"
abbreviation DQUOTE :: nat where "DQUOTE \<equiv> 34"
abbreviation HASH :: nat where "HASH \<equiv> 35"
abbreviation SQUOTE :: nat where "SQUOTE \<equiv> 39"
abbreviation LPAREN :: nat where "LPAREN \<equiv> 40"
abbreviation RPAREN :: nat where "RPAREN \<equiv> 41"
abbreviation COMMA :: nat where "COMMA \<equiv> 44"
abbreviation EQ :: nat where "EQ \<equiv> 61"
abbreviation BACKSLASH :: nat where "BACKSLASH \<equiv> 92"

text \<open>The exceptions that can arise in the script.\<close>

datatype py_error = OSError | KeyError | IndexError | ValueError

text \<open>
  \<^verbatim>\<open>str.strip()\<close> without an argument removes whitespace, which for \<^verbatim>\<open>str\<close> is the set of
  code points CPython's \<^verbatim>\<open>_PyUnicode_IsWhitespace\<close> accepts.
\<close>

definition py_isspace :: "nat \<Rightarrow> bool" where
  "py_isspace c =
     ((9 \<le> c \<and> c \<le> 13) \<or> (28 \<le> c \<and> c \<le> 32) \<or> c = 133 \<or> c = 160 \<or> c = 5760 \<or>
      (8192 \<le> c \<and> c \<le> 8202) \<or> c = 8232 \<or> c = 8233 \<or> c = 8239 \<or> c = 8287 \<or>
      c = 12288)"

text \<open>
  Both forms of \<^verbatim>\<open>strip\<close> advance from the left over the characters to remove, then
  from the right over what is left, and return the slice in between.
\<close>

definition strip_where :: "(nat \<Rightarrow> bool) \<Rightarrow> pystr \<Rightarrow> pystr" where
  "strip_where P s = rev (dropWhile P (rev (dropWhile P s)))"

definition py_strip :: "pystr \<Rightarrow> pystr" where
  "py_strip s = strip_where py_isspace s"

definition py_strip_chars :: "pystr \<Rightarrow> pystr \<Rightarrow> pystr" where
  "py_strip_chars chars s = strip_where (\<lambda>c. c \<in> set chars) s"

text \<open>\<^verbatim>\<open>s.find(c)\<close> for a one-character \<open>c\<close>: the index of its first occurrence.\<close>

fun py_find :: "nat \<Rightarrow> pystr \<Rightarrow> nat option" where
  "py_find c [] = None"
| "py_find c (x # xs) = (if x = c then Some 0 else map_option Suc (py_find c xs))"

text \<open>\<^verbatim>\<open>s.split(sep, 1)\<close>: one cut at the first separator, or the whole string.\<close>

definition py_split1 :: "nat \<Rightarrow> pystr \<Rightarrow> pystr list" where
  "py_split1 sep s =
     (case py_find sep s of
        None \<Rightarrow> [s]
      | Some i \<Rightarrow> [take i s, drop (Suc i) s])"

text \<open>\<^verbatim>\<open>s.split(sep)\<close>: a cut at every separator; the empty string gives \<^verbatim>\<open>['']\<close>.\<close>

fun py_split :: "nat \<Rightarrow> pystr \<Rightarrow> pystr list" where
  "py_split sep [] = [[]]"
| "py_split sep (c # cs) =
     (if c = sep then [] # py_split sep cs
      else (case py_split sep cs of
              [] \<Rightarrow> [[c]]
            | p # ps \<Rightarrow> (c # p) # ps))"

text \<open>The tuple assignment \<^verbatim>\<open>key, val = parts\<close> raises unless there are two parts.\<close>

fun unpack2 :: "'a list \<Rightarrow> py_error + ('a \<times> 'a)" where
  "unpack2 [a, b] = Inr (a, b)"
| "unpack2 _ = Inl ValueError"

text \<open>\<^verbatim>\<open>sub in s\<close> for strings, and \<^verbatim>\<open>s.startswith(c)\<close> for a one-character \<open>c\<close>.\<close>

fun py_contains :: "pystr \<Rightarrow> pystr \<Rightarrow> bool" where
  "py_contains sub [] = (sub = [])"
| "py_contains sub (c # cs) = (take (length sub) (c # cs) = sub \<or> py_contains sub cs)"

fun py_startswith :: "pystr \<Rightarrow> nat \<Rightarrow> bool" where
  "py_startswith [] c = False"
| "py_startswith (x # xs) c = (x = c)"

text \<open>
  \<^verbatim>\<open>re.search(r'\(([^)]+)\)', val)\<close> and its \<^verbatim>\<open>group(1)\<close>. The search tries each start
  position from the left. At an opening parenthesis the class \<^verbatim>\<open>[^)]+\<close> takes the longest
  run of characters other than the closing parenthesis (newlines included); the attempt
  succeeds when that run is not empty and a closing parenthesis follows it. A shorter run
  cannot succeed, since the character after it is again not a closing parenthesis.
  \<open>None\<close> is the failed search.
\<close>

fun re_search_group :: "pystr \<Rightarrow> pystr option" where
  "re_search_group [] = None"
| "re_search_group (c # cs) =
     (if c = LPAREN \<and> takeWhile (\<lambda>x. x \<noteq> RPAREN) cs \<noteq> [] \<and>
         dropWhile (\<lambda>x. x \<noteq> RPAREN) cs \<noteq> []
      then Some (takeWhile (\<lambda>x. x \<noteq> RPAREN) cs)
      else re_search_group cs)"

text \<open>\<^verbatim>\<open>d[k]\<close> on a dictionary and \<^verbatim>\<open>xs[i]\<close> on a list, with their exceptions.\<close>

definition dict_getitem :: "(pystr \<rightharpoonup> 'v) \<Rightarrow> pystr \<Rightarrow> py_error + 'v" where
  "dict_getitem d k = (case d k of None \<Rightarrow> Inl KeyError | Some v \<Rightarrow> Inr v)"

definition list_getitem :: "'a list \<Rightarrow> nat \<Rightarrow> py_error + 'a" where
  "list_getitem xs i = (if i < length xs then Inr (xs ! i) else Inl IndexError)"

section \<open>The platform and the file system\<close>

text \<open>
  Three facts of the running interpreter are not in the repository and are parameters:
  the path separator \<^verbatim>\<open>os.sep\<close>, \<^verbatim>\<open>repr\<close> on strings (used when a list is printed) and
  \<^verbatim>\<open>str.lower\<close>; the last two depend on the Unicode tables of the interpreter.
\<close>

record platform =
  path_sep :: nat
  py_repr :: "pystr \<Rightarrow> pystr"
  py_lower :: "pystr \<Rightarrow> pystr"

text \<open>
  A path names nothing, a regular file with its decoded text, or a directory with the
  names \<^verbatim>\<open>os.listdir\<close> returns for it, in the order it returns them. Files are taken to
  be readable and decodable; opening a directory fails.
\<close>

datatype node = File pystr | Dir "pystr list"

type_synonym filesystem = "pystr \<Rightarrow> node option"

text \<open>
  \<^verbatim>\<open>os.path.join\<close> for components that are plain names, as the script's arguments are:
  the components separated by \<^verbatim>\<open>os.sep\<close>.
\<close>

fun os_path_join :: "platform \<Rightarrow> pystr \<Rightarrow> pystr list \<Rightarrow> pystr" where
  "os_path_join rt a [] = a"
| "os_path_join rt a (p # ps) = os_path_join rt (a @ [path_sep rt] @ p) ps"

definition os_path_exists :: "filesystem \<Rightarrow> pystr \<Rightarrow> bool" where
  "os_path_exists fs path = (fs path \<noteq> None)"

definition os_path_isdir :: "filesystem \<Rightarrow> pystr \<Rightarrow> bool" where
  "os_path_isdir fs path = (case fs path of Some (Dir names) \<Rightarrow> True | _ \<Rightarrow> False)"

definition os_listdir :: "filesystem \<Rightarrow> pystr \<Rightarrow> py_error + pystr list" where
  "os_listdir fs path = (case fs path of Some (Dir names) \<Rightarrow> Inr names | _ \<Rightarrow> Inl OSError)"

text \<open>
  \<^verbatim>\<open>open(path, 'r')\<close> reads text with universal newlines: \<^verbatim>\<open>\r\n\<close> and a lone \<^verbatim>\<open>\r\<close>
  become \<^verbatim>\<open>\n\<close>. Iterating the file yields its lines, each with its terminator.
\<close>

fun universal_newlines :: "pystr \<Rightarrow> pystr" where
  "universal_newlines [] = []"
| "universal_newlines [c] = (if c = CR then [NEWLINE] else [c])"
| "universal_newlines (c # d # cs) =
     (if c = CR \<and> d = NEWLINE then NEWLINE # universal_newlines cs
      else if c = CR then NEWLINE # universal_newlines (d # cs)
      else c # universal_newlines (d # cs))"

fun file_lines :: "pystr \<Rightarrow> pystr list" where
  "file_lines [] = []"
| "file_lines (c # cs) =
     (if c = NEWLINE then [c] # file_lines cs
      else (case file_lines cs of
              [] \<Rightarrow> [[c]]
            | l # ls \<Rightarrow> (c # l) # ls))"

definition open_read :: "filesystem \<Rightarrow> pystr \<Rightarrow> py_error + pystr list" where
  "open_read fs path =
     (case fs path of
        Some (File text) \<Rightarrow> Inr (file_lines (universal_newlines text))
      | _ \<Rightarrow> Inl OSError)"

section \<open>The three parsers\<close>

text \<open>
  Each parser runs \<^verbatim>\<open>for line in f:\<close> over the lines of its file with a body that
  stores at most one item in the dictionary. The body is a function from the line to the
  item it stores, if any; the loop applies the stores in file order and stops at an
  exception.
\<close>

fun for_line_in ::
  "(pystr \<Rightarrow> py_error + (pystr \<times> 'v) option) \<Rightarrow> pystr list \<Rightarrow> (pystr \<rightharpoonup> 'v) \<Rightarrow>
   py_error + (pystr \<rightharpoonup> 'v)" where
  "for_line_in body [] d = Inr d"
| "for_line_in body (line # f) d =
     (case body line of
        Inl e \<Rightarrow> Inl e
      | Inr None \<Rightarrow> for_line_in body f d
      | Inr (Some (k, v)) \<Rightarrow> for_line_in body f (d(k \<mapsto> v)))"

text \<open>The quote characters of \<^verbatim>\<open>strip("'\"")\<close>.\<close>

definition quote_chars :: pystr where
  "quote_chars = [SQUOTE, DQUOTE]"

definition ds2theme_line :: "pystr \<Rightarrow> py_error + (pystr \<times> pystr) option" where
  "ds2theme_line line =
     (if EQ \<in> set line then
        (case unpack2 (py_split1 EQ line) of
           Inl e \<Rightarrow> Inl e
         | Inr (key, val) \<Rightarrow>
             Inr (Some (py_strip key, py_strip_chars quote_chars (py_strip val))))
      else Inr None)"

definition parse_ds2theme :: "filesystem \<Rightarrow> pystr \<Rightarrow> py_error + (pystr \<rightharpoonup> pystr)" where
  "parse_ds2theme fs path =
     (if \<not> os_path_exists fs path then Inr Map.empty
      else (case open_read fs path of
              Inl e \<Rightarrow> Inl e
            | Inr f \<Rightarrow> for_line_in ds2theme_line f Map.empty))"

definition dialogrc_line :: "pystr \<Rightarrow> py_error + (pystr \<times> pystr list) option" where
  "dialogrc_line line =
     (if EQ \<in> set line \<and> LPAREN \<in> set line then
        (case unpack2 (py_split1 EQ line) of
           Inl e \<Rightarrow> Inl e
         | Inr (key, val) \<Rightarrow>
             (case re_search_group val of
                None \<Rightarrow> Inr None
              | Some group1 \<Rightarrow> Inr (Some (py_strip key, py_split COMMA group1))))
      else Inr None)"

definition parse_dialogrc ::
  "filesystem \<Rightarrow> pystr \<Rightarrow> py_error + (pystr \<rightharpoonup> pystr list)" where
  "parse_dialogrc fs path =
     (if \<not> os_path_exists fs path then Inr Map.empty
      else (case open_read fs path of
              Inl e \<Rightarrow> Inl e
            | Inr f \<Rightarrow> for_line_in dialogrc_line f Map.empty))"

definition theme_ini_line :: "pystr \<Rightarrow> py_error + (pystr \<times> pystr) option" where
  "theme_ini_line line =
     (if EQ \<in> set line \<and> \<not> py_startswith line HASH then
        (case unpack2 (py_split1 EQ line) of
           Inl e \<Rightarrow> Inl e
         | Inr (key, val) \<Rightarrow>
             Inr (Some (py_strip key, py_strip_chars quote_chars (py_strip val))))
      else Inr None)"

definition parse_theme_ini :: "filesystem \<Rightarrow> pystr \<Rightarrow> py_error + (pystr \<rightharpoonup> pystr)" where
  "parse_theme_ini fs path =
     (if \<not> os_path_exists fs path then Inr Map.empty
      else (case open_read fs path of
              Inl e \<Rightarrow> Inl e
            | Inr f \<Rightarrow> for_line_in theme_ini_line f Map.empty))"

section \<open>The parity reporter\<close>

text \<open>The two roots, as the raw string literals of the script spell them.\<close>

definition backslashed :: "string list \<Rightarrow> pystr" where
  "backslashed parts = concat (map (\<lambda>p. BACKSLASH # lit p) parts)"

definition GO_THEMES_DIR :: pystr where
  "GO_THEMES_DIR =
     lit ''c:'' @ backslashed [''Users'', ''CLHat'', ''Documents'', ''GitHub'', ''GhostWriters'',
       ''DockSTARTer2'', ''internal'', ''assets'', ''themes'']"

definition BASH_THEMES_DIR :: pystr where
  "BASH_THEMES_DIR =
     lit ''c:'' @ backslashed [''Users'', ''CLHat'', ''Documents'', ''GitHub'', ''GhostWriters'',
       ''DockSTARTer'', ''assets'', ''themes'']"

text \<open>
  The nested helper \<^verbatim>\<open>get_bash_color\<close>: the first colour token found in the value,
  tested in the order of the \<^verbatim>\<open>if\<close>/\<^verbatim>\<open>elif\<close> chain, and the reverse-video flag.
\<close>

definition get_bash_color :: "pystr \<Rightarrow> pystr \<times> bool" where
  "get_bash_color val =
     (let res =
        (if py_contains (lit ''${_W_}'') val then lit ''white''
         else if py_contains (lit ''${_G_}'') val then lit ''green''
         else if py_contains (lit ''${_C_}'') val then lit ''cyan''
         else if py_contains (lit ''${_M_}'') val then lit ''magenta''
         else if py_contains (lit ''${_Y_}'') val then lit ''yellow''
         else if py_contains (lit ''${_R_}'') val then lit ''red''
         else if py_contains (lit ''${_B_}'') val then lit ''blue''
         else if py_contains (lit ''${_K_}'') val then lit ''black''
         else lit ''NC'');
        is_rev = py_contains (lit ''${_RV_}'') val
      in (res, is_rev))"

text \<open>
  The assignment of \<^verbatim>\<open>screen_bg\<close>: the default, or the second stored part of
  \<^verbatim>\<open>screen_color\<close>, stripped and lower-cased.
\<close>

definition screen_background :: "platform \<Rightarrow> (pystr \<rightharpoonup> pystr list) \<Rightarrow> py_error + pystr" where
  "screen_background rt rc =
     (if rc (lit ''screen_color'') \<noteq> None then
        (case dict_getitem rc (lit ''screen_color'') of
           Inl e \<Rightarrow> Inl e
         | Inr parts \<Rightarrow>
             (case list_getitem parts 1 of
                Inl e \<Rightarrow> Inl e
              | Inr part \<Rightarrow> Inr (py_lower rt (py_strip part))))
      else Inr (lit ''black''))"

text \<open>The loop over the five title keys, whose body calls the helper and then passes.\<close>

definition title_keys :: "pystr list" where
  "title_keys =
     [lit ''Title'', lit ''Subtitle'', lit ''TitleSuccess'', lit ''TitleError'',
      lit ''TitleWarning'']"

fun title_loop ::
  "(pystr \<rightharpoonup> pystr) \<Rightarrow> (pystr \<rightharpoonup> pystr) \<Rightarrow> pystr list \<Rightarrow> py_error + unit" where
  "title_loop ini go [] = Inr ()"
| "title_loop ini go (k # ks) =
     (if ini k \<noteq> None \<and> go k \<noteq> None then
        (case dict_getitem ini k of
           Inl e \<Rightarrow> Inl e
         | Inr v \<Rightarrow> (case get_bash_color v of (b_col, b_rev) \<Rightarrow> title_loop ini go ks))
      else title_loop ini go ks)"

text \<open>
  What an f-string writes for \<^verbatim>\<open>d.get(k)\<close>: \<^verbatim>\<open>None\<close> for an absent key, the string
  itself for a string, and for a list the \<^verbatim>\<open>repr\<close> of its items between brackets.
\<close>

definition format_str :: "pystr option \<Rightarrow> pystr" where
  "format_str v = (case v of None \<Rightarrow> lit ''None'' | Some s \<Rightarrow> s)"

fun py_join :: "pystr \<Rightarrow> pystr list \<Rightarrow> pystr" where
  "py_join sep [] = []"
| "py_join sep [x] = x"
| "py_join sep (x # y # ys) = x @ sep @ py_join sep (y # ys)"

definition format_list :: "platform \<Rightarrow> pystr list option \<Rightarrow> pystr" where
  "format_list rt v =
     (case v of
        None \<Rightarrow> lit ''None''
      | Some xs \<Rightarrow> lit ''['' @ py_join (lit '', '') (map (py_repr rt) xs) @ lit '']'')"

text \<open>
  \<^verbatim>\<open>check_parity\<close> returns the lines it has printed, one per \<^verbatim>\<open>print\<close> call, and the
  exception that ended it, if one did.
\<close>

definition header_line :: "pystr \<Rightarrow> pystr" where
  "header_line name = lit ''--- Checking '' @ name @ lit '' ---''"

definition report_lines ::
  "platform \<Rightarrow> (pystr \<rightharpoonup> pystr) \<Rightarrow> (pystr \<rightharpoonup> pystr) \<Rightarrow> (pystr \<rightharpoonup> pystr list) \<Rightarrow> pystr list" where
  "report_lines rt go ini rc =
     [lit ''Go Title: '' @ format_str (go (lit ''Title'')),
      lit ''Bash Title: '' @ format_str (ini (lit ''Title'')),
      lit ''Bash dialogrc Title: '' @ format_list rt (rc (lit ''title_color'')),
      lit ''Bash dialogrc Screen: '' @ format_list rt (rc (lit ''screen_color'')),
      []]"

definition go_path :: "platform \<Rightarrow> pystr \<Rightarrow> pystr" where
  "go_path rt name = os_path_join rt GO_THEMES_DIR [name @ lit ''.ds2theme'']"

definition bash_ini_path :: "platform \<Rightarrow> pystr \<Rightarrow> pystr" where
  "bash_ini_path rt name = os_path_join rt BASH_THEMES_DIR [name, lit ''theme.ini'']"

definition bash_rc_path :: "platform \<Rightarrow> pystr \<Rightarrow> pystr" where
  "bash_rc_path rt name = os_path_join rt BASH_THEMES_DIR [name, lit ''.dialogrc'']"

definition check_parity ::
  "platform \<Rightarrow> filesystem \<Rightarrow> pystr \<Rightarrow> pystr list \<times> py_error option" where
  "check_parity rt fs name =
     (let out = [header_line name] in
      case parse_ds2theme fs (go_path rt name) of
        Inl e \<Rightarrow> (out, Some e)
      | Inr go \<Rightarrow>
      (case parse_theme_ini fs (bash_ini_path rt name) of
        Inl e \<Rightarrow> (out, Some e)
      | Inr ini \<Rightarrow>
      (case parse_dialogrc fs (bash_rc_path rt name) of
        Inl e \<Rightarrow> (out, Some e)
      | Inr rc \<Rightarrow>
      (case screen_background rt rc of
        Inl e \<Rightarrow> (out, Some e)
      | Inr screen_bg \<Rightarrow>
      (case title_loop ini go title_keys of
        Inl e \<Rightarrow> (out, Some e)
      | Inr u \<Rightarrow> (out @ report_lines rt go ini rc, None))))))"

text \<open>
  The reporter of the specification with the colour helper, the extraction of the screen
  background and the loop over the title keys left out.
\<close>

definition check_parity_without_helper ::
  "platform \<Rightarrow> filesystem \<Rightarrow> pystr \<Rightarrow> pystr list \<times> py_error option" where
  "check_parity_without_helper rt fs name =
     (let out = [header_line name] in
      case parse_ds2theme fs (go_path rt name) of
        Inl e \<Rightarrow> (out, Some e)
      | Inr go \<Rightarrow>
      (case parse_theme_ini fs (bash_ini_path rt name) of
        Inl e \<Rightarrow> (out, Some e)
      | Inr ini \<Rightarrow>
      (case parse_dialogrc fs (bash_rc_path rt name) of
        Inl e \<Rightarrow> (out, Some e)
      | Inr rc \<Rightarrow> (out @ report_lines rt go ini rc, None))))"

section \<open>The script body: discovery and the loop over the themes\<close>

definition themes :: "platform \<Rightarrow> filesystem \<Rightarrow> py_error + pystr list" where
  "themes rt fs =
     (case os_listdir fs BASH_THEMES_DIR of
        Inl e \<Rightarrow> Inl e
      | Inr ds \<Rightarrow>
          Inr (filter (\<lambda>d. os_path_isdir fs (os_path_join rt BASH_THEMES_DIR [d])) ds))"

fun check_all :: "platform \<Rightarrow> filesystem \<Rightarrow> pystr list \<Rightarrow> pystr list \<times> py_error option" where
  "check_all rt fs [] = ([], None)"
| "check_all rt fs (t # ts) =
     (case check_parity rt fs t of
        (out, Some e) \<Rightarrow> (out, Some e)
      | (out, None) \<Rightarrow> (case check_all rt fs ts of (out', r) \<Rightarrow> (out @ out', r)))"

definition script :: "platform \<Rightarrow> filesystem \<Rightarrow> pystr list \<times> py_error option" where
  "script rt fs =
     (case themes rt fs of
        Inl e \<Rightarrow> ([], Some e)
      | Inr ts \<Rightarrow> check_all rt fs ts)"

section \<open>Example inputs\<close>

text \<open>
  A platform with the Windows separator, whose \<^verbatim>\<open>repr\<close> and \<^verbatim>\<open>lower\<close> are those of
  Python on printable ASCII text without quotes or backslashes, and small file systems.
\<close>

definition example_platform :: platform where
  "example_platform =
     \<lparr>path_sep = BACKSLASH,
      py_repr = (\<lambda>s. SQUOTE # s @ [SQUOTE]),
      py_lower = map (\<lambda>c. if 65 \<le> c \<and> c \<le> 90 then c + 32 else c)\<rparr>"

definition short_screen_files :: filesystem where
  "short_screen_files =
     Map.empty
      (BASH_THEMES_DIR \<mapsto> Dir [lit ''A'', lit ''notes.txt'', lit ''B''],
       os_path_join example_platform BASH_THEMES_DIR [lit ''A''] \<mapsto> Dir [lit ''.dialogrc''],
       os_path_join example_platform BASH_THEMES_DIR [lit ''notes.txt''] \<mapsto> File [],
       os_path_join example_platform BASH_THEMES_DIR [lit ''B''] \<mapsto> Dir [],
       bash_rc_path example_platform (lit ''A'') \<mapsto>
         File (lit ''screen_color = (BLACK)'' @ [NEWLINE]))"

definition duplicate_key_files :: filesystem where
  "duplicate_key_files =
     Map.empty
      (lit ''t'' \<mapsto>
         File (lit ''k=(a)'' @ [NEWLINE] @ lit ''k=(b,c)'' @ [NEWLINE] @ lit ''j=(d)''))"

section \<open>Properties of the text built-ins\<close>

lemmas example_text =
  lit_def py_strip_def py_strip_chars_def strip_where_def py_isspace_def quote_chars_def

lemmas example_paths =
  short_screen_files_def example_platform_def go_path_def bash_ini_path_def bash_rc_path_def
  GO_THEMES_DIR_def BASH_THEMES_DIR_def backslashed_def lit_def

lemma py_find_none: "(py_find c s = None) = (c \<notin> set s)"
  by (induction s) auto

lemma py_find_first: "c \<notin> set left \<Longrightarrow> py_find c (left @ c # right) = Some (length left)"
  by (induction left) auto

lemma py_split1_cut: "c \<notin> set left \<Longrightarrow> py_split1 c (left @ c # right) = [left, right]"
  by (simp add: py_split1_def py_find_first)

lemma py_split1_whole: "c \<notin> set s \<Longrightarrow> py_split1 c s = [s]"
  using py_find_none[of c s] by (simp add: py_split1_def)

lemma first_occurrence: "c \<in> set s \<Longrightarrow> \<exists>left right. s = left @ c # right \<and> c \<notin> set left"
  by (rule split_list_first)

lemma strip_where_parts:
  "\<exists>a b. s = a @ strip_where P s @ b \<and> (\<forall>x\<in>set a. P x) \<and> (\<forall>x\<in>set b. P x)"
proof -
  let ?m = "dropWhile P s"
  have 1: "s = takeWhile P s @ ?m" by simp
  have 2: "rev ?m = takeWhile P (rev ?m) @ dropWhile P (rev ?m)" by simp
  then have "?m = rev (dropWhile P (rev ?m)) @ rev (takeWhile P (rev ?m))"
    by (metis rev_append rev_rev_ident)
  then have 3: "s = takeWhile P s @ strip_where P s @ rev (takeWhile P (rev ?m))"
    unfolding strip_where_def using 1 by metis
  have 4: "\<forall>x\<in>set (takeWhile P s). P x" by (auto dest: set_takeWhileD)
  have 5: "\<forall>x\<in>set (rev (takeWhile P (rev ?m))). P x" by (auto dest: set_takeWhileD)
  from 3 4 5 show ?thesis by blast
qed

lemma strip_where_edges:
  assumes "strip_where P s \<noteq> []"
  shows "\<not> P (hd (strip_where P s)) \<and> \<not> P (last (strip_where P s))"
proof -
  let ?m = "dropWhile P s"
  let ?r = "dropWhile P (rev ?m)"
  from assms have r: "?r \<noteq> []" by (simp add: strip_where_def)
  then have l: "\<not> P (hd ?r)" by (rule hd_dropWhile)
  have la: "last (strip_where P s) = hd ?r" using r by (simp add: strip_where_def last_rev)
  from r have m: "?m \<noteq> []" by (cases "?m") simp_all
  then have hm: "\<not> P (hd ?m)" by (rule hd_dropWhile)
  have "rev ?m = takeWhile P (rev ?m) @ ?r" by simp
  then have "?m = rev ?r @ rev (takeWhile P (rev ?m))" by (metis rev_append rev_rev_ident)
  then have "hd ?m = hd (rev ?r)" using r by (metis hd_append2 rev_is_Nil_conv)
  with hm la l show ?thesis by (simp add: strip_where_def)
qed

lemma strip_where_unique:
  assumes "s = a @ t @ b" "\<forall>x\<in>set a. P x" "\<forall>x\<in>set b. P x" "t \<noteq> []" "\<not> P (hd t)" "\<not> P (last t)"
  shows "strip_where P s = t"
proof -
  from assms have 1: "dropWhile P s = t @ b"
    by (cases t) (simp_all add: dropWhile_append)
  have "rev (t @ b) = rev b @ rev t" by simp
  moreover have "\<forall>x\<in>set (rev b). P x" using assms by simp
  moreover have "\<not> P (hd (rev t))" using assms by (simp add: hd_rev)
  ultimately have "dropWhile P (rev (t @ b)) = rev t" using assms(4)
    by (cases "rev t") (simp_all add: dropWhile_append)
  with 1 show ?thesis by (simp add: strip_where_def)
qed

lemma strip_where_all:
  assumes "\<forall>x\<in>set s. P x" shows "strip_where P s = []"
proof -
  from assms have "dropWhile P s = []" by simp
  then show ?thesis unfolding strip_where_def by (simp del: dropWhile_eq_Nil_conv)
qed

lemma py_split_not_empty: "py_split sep s \<noteq> []"
  by (induction s) (auto split: list.splits)

lemma py_split_no_sep: "sep \<notin> set s \<Longrightarrow> py_split sep s = [s]"
  by (induction s) auto

lemma py_split_at_sep:
  "sep \<notin> set p \<Longrightarrow> py_split sep (p @ sep # rest) = p # py_split sep rest"
  by (induction p) auto

lemma py_split_join:
  assumes "ps \<noteq> []" "\<forall>p\<in>set ps. sep \<notin> set p"
  shows "py_split sep (py_join [sep] ps) = ps"
  using assms
proof (induction ps)
  case Nil
  then show ?case by simp
next
  case (Cons x ys)
  show ?case
  proof (cases ys)
    case Nil
    with Cons.prems show ?thesis by (simp add: py_split_no_sep)
  next
    case (Cons y zs)
    with Cons.IH Cons.prems show ?thesis by (simp add: py_split_at_sep)
  qed
qed

lemma py_join_split: "py_join [sep] (py_split sep s) = s"
proof (induction s)
  case Nil
  then show ?case by simp
next
  case (Cons c cs)
  obtain p ps where ps: "py_split sep cs = p # ps"
    using py_split_not_empty[of sep cs] by (cases "py_split sep cs") auto
  show ?case
  proof (cases "c = sep")
    case True
    with Cons ps show ?thesis by simp
  next
    case False
    with Cons ps show ?thesis by (cases ps) auto
  qed
qed

lemma py_split_parts: "p \<in> set (py_split sep s) \<Longrightarrow> sep \<notin> set p"
proof (induction s arbitrary: p)
  case Nil
  then show ?case by simp
next
  case (Cons c cs)
  obtain q qs where qs: "py_split sep cs = q # qs"
    using py_split_not_empty[of sep cs] by (cases "py_split sep cs") auto
  show ?case
  proof (cases "c = sep")
    case True
    with Cons show ?thesis by auto
  next
    case False
    with Cons.prems qs have "p = c # q \<or> p \<in> set qs" by auto
    with Cons.IH qs False show ?thesis by auto
  qed
qed

lemma py_split_short: "(length (py_split sep s) < 2) = (sep \<notin> set s)"
proof (induction s)
  case Nil
  then show ?case by simp
next
  case (Cons c cs)
  obtain q qs where qs: "py_split sep cs = q # qs"
    using py_split_not_empty[of sep cs] by (cases "py_split sep cs") auto
  with Cons show ?case by auto
qed

lemma re_search_group_found:
  assumes "\<forall>i<length pre. pre ! i = LPAREN \<longrightarrow> Suc i < length pre \<and> pre ! Suc i = RPAREN"
    and "g \<noteq> []" and "RPAREN \<notin> set g"
  shows "re_search_group (pre @ LPAREN # g @ RPAREN # post) = Some g"
  using assms(1)
proof (induction pre)
  case Nil
  have "takeWhile (\<lambda>x. x \<noteq> RPAREN) (g @ RPAREN # post) = g"
    using assms(3) by (subst takeWhile_append2) auto
  moreover have "dropWhile (\<lambda>x. x \<noteq> RPAREN) (g @ RPAREN # post) = RPAREN # post"
    using assms(3) by (subst dropWhile_append2) auto
  ultimately show ?case using assms(2) by simp
next
  case (Cons c pre)
  have ih: "re_search_group (pre @ LPAREN # g @ RPAREN # post) = Some g"
  proof (rule Cons.IH, intro allI impI)
    fix i assume "i < length pre" "pre ! i = LPAREN"
    with Cons.prems[rule_format, of "Suc i"]
    show "Suc i < length pre \<and> pre ! Suc i = RPAREN" by simp
  qed
  show ?case
  proof (cases "c = LPAREN")
    case False
    with ih show ?thesis by simp
  next
    case True
    with Cons.prems[rule_format, of 0] have "Suc 0 < length (c # pre)" "(c # pre) ! Suc 0 = RPAREN"
      by simp_all
    then obtain pre' where "pre = RPAREN # pre'" by (cases pre) auto
    with ih show ?thesis by simp
  qed
qed

lemma re_search_group_none:
  "(\<forall>pre post. s = pre @ LPAREN # post \<longrightarrow> RPAREN \<notin> set post) \<Longrightarrow> re_search_group s = None"
proof (induction s)
  case Nil
  then show ?case by simp
next
  case (Cons c cs)
  have "\<forall>pre post. cs = pre @ LPAREN # post \<longrightarrow> RPAREN \<notin> set post"
  proof (intro allI impI)
    fix pre post assume "cs = pre @ LPAREN # post"
    then have "c # cs = (c # pre) @ LPAREN # post" by simp
    with Cons.prems show "RPAREN \<notin> set post" by blast
  qed
  then have ih: "re_search_group cs = None" by (rule Cons.IH)
  show ?case
  proof (cases "c = LPAREN")
    case False
    with ih show ?thesis by simp
  next
    case True
    then have "c # cs = [] @ LPAREN # cs" by simp
    with Cons.prems have "RPAREN \<notin> set cs" by blast
    then have "dropWhile (\<lambda>x. x \<noteq> RPAREN) cs = []" by auto
    with ih show ?thesis by simp
  qed
qed

lemma re_search_group_no_lparen: "LPAREN \<notin> set s \<Longrightarrow> re_search_group s = None"
  by (induction s) auto

lemma re_search_group_sound:
  "re_search_group s = Some g \<Longrightarrow>
   \<exists>pre post. s = pre @ LPAREN # g @ RPAREN # post \<and> g \<noteq> [] \<and> RPAREN \<notin> set g"
proof (induction s)
  case Nil
  then show ?case by simp
next
  case (Cons c cs)
  let ?t = "takeWhile (\<lambda>x. x \<noteq> RPAREN) cs"
  let ?d = "dropWhile (\<lambda>x. x \<noteq> RPAREN) cs"
  show ?case
  proof (cases "c = LPAREN \<and> ?t \<noteq> [] \<and> ?d \<noteq> []")
    case True
    with Cons.prems have g: "g = ?t" by simp
    from True have "hd ?d = RPAREN" using hd_dropWhile[of "\<lambda>x. x \<noteq> RPAREN" cs] by simp
    with True obtain post where d: "?d = RPAREN # post" by (cases ?d) auto
    have "cs = ?t @ ?d" by simp
    with d g True have "c # cs = [] @ LPAREN # g @ RPAREN # post" by simp
    moreover have "RPAREN \<notin> set g" unfolding g by (auto dest: set_takeWhileD)
    ultimately show ?thesis using True g by blast
  next
    case False
    with Cons.prems have "re_search_group cs = Some g" by auto
    from Cons.IH[OF this] obtain pre post where
      "cs = pre @ LPAREN # g @ RPAREN # post" "g \<noteq> []" "RPAREN \<notin> set g" by blast
    then have "c # cs = (c # pre) @ LPAREN # g @ RPAREN # post" by simp
    with \<open>g \<noteq> []\<close> \<open>RPAREN \<notin> set g\<close> show ?thesis by blast
  qed
qed

section \<open>The line rules of the three parsers\<close>

lemma unpack2_split1: "EQ \<in> set line \<Longrightarrow> \<exists>left right. line = left @ EQ # right \<and> EQ \<notin> set left \<and> unpack2 (py_split1 EQ line) = Inr (left, right)"
proof -
  assume "EQ \<in> set line"
  then obtain left right where "line = left @ EQ # right" "EQ \<notin> set left"
    using split_list_first[of EQ line] by blast
  then show ?thesis by (auto simp: py_split1_cut)
qed

lemma ds2theme_line_cut:
  assumes "line = left @ EQ # right" "EQ \<notin> set left"
  shows "ds2theme_line line = Inr (Some (py_strip left, py_strip_chars quote_chars (py_strip right)))"
  using assms by (simp add: ds2theme_line_def py_split1_cut)

lemma ds2theme_line_skip: "EQ \<notin> set line \<Longrightarrow> ds2theme_line line = Inr None"
  by (simp add: ds2theme_line_def)

lemma ds2theme_line_total: "ds2theme_line line \<noteq> Inl e"
proof (cases "EQ \<in> set line")
  case True
  then obtain left right where "line = left @ EQ # right" "EQ \<notin> set left"
    using split_list_first[of EQ line] by blast
  then show ?thesis by (simp add: ds2theme_line_cut)
next
  case False
  then show ?thesis by (simp add: ds2theme_line_skip)
qed

text \<open>
  Claim C2. A line of the descriptor file stores an item if and only if it contains
  \<^verbatim>\<open>=\<close>. When it does, the line is cut at its first \<^verbatim>\<open>=\<close> only; the key is the left
  side with its surrounding whitespace stripped, and the value is the right side with its
  surrounding whitespace stripped and then every quote character at either edge removed.
  What stripping removes is fixed by \<open>strip_where_parts\<close>, \<open>strip_where_edges\<close> and
  \<open>strip_where_unique\<close>: the longest run of the characters at each edge, with no pairing
  of quotes.
\<close>

theorem ds2theme_line_rule:
  "(ds2theme_line line = Inr None) = (EQ \<notin> set line) \<and>
   (\<forall>left right. line = left @ EQ # right \<and> EQ \<notin> set left \<longrightarrow>
      ds2theme_line line =
        Inr (Some (py_strip left, py_strip_chars quote_chars (py_strip right))))"
proof (intro conjI allI impI)
  show "(ds2theme_line line = Inr None) = (EQ \<notin> set line)"
  proof (cases "EQ \<in> set line")
    case True
    then obtain left right where "line = left @ EQ # right" "EQ \<notin> set left"
      using split_list_first[of EQ line] by blast
    with True show ?thesis by (simp add: ds2theme_line_cut)
  next
    case False
    then show ?thesis by (simp add: ds2theme_line_skip)
  qed
next
  fix left right
  assume "line = left @ EQ # right \<and> EQ \<notin> set left"
  then show "ds2theme_line line =
      Inr (Some (py_strip left, py_strip_chars quote_chars (py_strip right)))"
    by (simp add: ds2theme_line_cut)
qed

theorem ds2theme_line_rule_witness:
  "ds2theme_line (lit '' Title = '' @ [DQUOTE, SQUOTE] @ lit ''a=b'' @ [SQUOTE, NEWLINE]) =
     Inr (Some (lit ''Title'', lit ''a=b'')) \<and>
   ds2theme_line (lit ''no entry here'') = Inr None"
proof -
  have "lit '' Title = '' @ [DQUOTE, SQUOTE] @ lit ''a=b'' @ [SQUOTE, NEWLINE] =
          lit '' Title '' @ EQ # ([32, DQUOTE, SQUOTE] @ lit ''a=b'' @ [SQUOTE, NEWLINE]) \<and>
        EQ \<notin> set (lit '' Title '')"
    by (simp add: lit_def)
  from ds2theme_line_rule[THEN conjunct2, rule_format, OF this]
  have 1: "ds2theme_line (lit '' Title = '' @ [DQUOTE, SQUOTE] @ lit ''a=b'' @ [SQUOTE, NEWLINE]) =
      Inr (Some (lit ''Title'', lit ''a=b''))"
    by (simp add: example_text)
  have "EQ \<notin> set (lit ''no entry here'')" by (simp add: lit_def)
  with ds2theme_line_rule[of "lit ''no entry here''", THEN conjunct1]
  have 2: "ds2theme_line (lit ''no entry here'') = Inr None" by simp
  from 1 2 show ?thesis by simp
qed

lemma theme_ini_line_comment: "theme_ini_line (HASH # rest) = Inr None"
  by (simp add: theme_ini_line_def)

lemma theme_ini_line_other:
  "(\<forall>rest. line \<noteq> HASH # rest) \<Longrightarrow> theme_ini_line line = ds2theme_line line"
  by (cases line) (auto simp: theme_ini_line_def ds2theme_line_def)

lemma theme_ini_line_total: "theme_ini_line line \<noteq> Inl e"
proof (cases "\<exists>rest. line = HASH # rest")
  case True
  then show ?thesis by (auto simp: theme_ini_line_comment)
next
  case False
  then show ?thesis by (simp add: theme_ini_line_other ds2theme_line_total)
qed

lemma for_line_in_theme_ini:
  "for_line_in theme_ini_line f d =
   for_line_in ds2theme_line (filter (\<lambda>line. \<not> py_startswith line HASH) f) d"
proof (induction f arbitrary: d)
  case Nil
  then show ?case by simp
next
  case (Cons line f)
  show ?case
  proof (cases "py_startswith line HASH")
    case True
    then obtain rest where "line = HASH # rest" by (cases line) auto
    with Cons True show ?thesis by (simp add: theme_ini_line_comment)
  next
    case False
    then have "\<forall>rest. line \<noteq> HASH # rest" by auto
    then have same: "theme_ini_line line = ds2theme_line line" by (rule theme_ini_line_other)
    show ?thesis
    proof (cases "ds2theme_line line")
      case (Inl e)
      with same False show ?thesis by simp
    next
      case (Inr item)
      show ?thesis
      proof (cases item)
        case None
        with Inr same False Cons.IH[of d] show ?thesis by simp
      next
        case (Some kv)
        obtain k v where kv: "kv = (k, v)" by (cases kv)
        have "for_line_in theme_ini_line (line # f) d = for_line_in theme_ini_line f (d(k \<mapsto> v))"
          using Some Inr same kv by simp
        also have "\<dots> = for_line_in ds2theme_line
            (filter (\<lambda>line. \<not> py_startswith line HASH) f) (d(k \<mapsto> v))"
          by (rule Cons.IH)
        also have "\<dots> = for_line_in ds2theme_line
            (filter (\<lambda>line. \<not> py_startswith line HASH) (line # f)) d"
          using Some Inr False kv by simp
        finally show ?thesis .
      qed
    qed
  qed
qed

text \<open>
  Claim C8. A line of the INI file that starts with \<^verbatim>\<open>#\<close> stores nothing, whether
  or not it contains \<^verbatim>\<open>=\<close>; every other line is treated exactly as the descriptor parser
  treats it, so that reading an INI file is reading it as a descriptor file with the
  comment lines removed.
\<close>

theorem theme_ini_line_rule:
  "theme_ini_line (HASH # rest) = Inr None \<and>
   ((\<forall>rest. line \<noteq> HASH # rest) \<longrightarrow> theme_ini_line line = ds2theme_line line) \<and>
   for_line_in theme_ini_line f d =
     for_line_in ds2theme_line (filter (\<lambda>line. \<not> py_startswith line HASH) f) d"
  using theme_ini_line_comment theme_ini_line_other for_line_in_theme_ini by blast

theorem theme_ini_line_rule_witness:
  "theme_ini_line (lit ''#a=b'') = Inr None \<and>
   theme_ini_line (lit ''a=b'') = ds2theme_line (lit ''a=b'') \<and>
   for_line_in theme_ini_line [lit ''#a=b'', lit ''a=b''] Map.empty =
     for_line_in ds2theme_line [lit ''a=b''] Map.empty"
proof -
  have e1: "HASH # lit ''a=b'' = lit ''#a=b''" by (simp add: lit_def)
  have e2: "filter (\<lambda>line. \<not> py_startswith line HASH) [lit ''#a=b'', lit ''a=b''] =
      [lit ''a=b'']"
    by (simp add: lit_def)
  have "\<forall>rest. lit ''a=b'' \<noteq> HASH # rest" by (simp add: lit_def)
  with theme_ini_line_rule[of "lit ''a=b''" "lit ''a=b''" "[lit ''#a=b'', lit ''a=b'']" "Map.empty"]
  have "theme_ini_line (HASH # lit ''a=b'') = Inr None \<and>
    theme_ini_line (lit ''a=b'') = ds2theme_line (lit ''a=b'') \<and>
    for_line_in theme_ini_line [lit ''#a=b'', lit ''a=b''] Map.empty =
      for_line_in ds2theme_line
        (filter (\<lambda>line. \<not> py_startswith line HASH) [lit ''#a=b'', lit ''a=b'']) Map.empty"
    by blast
  then show ?thesis by (simp only: e1 e2)
qed

lemma dialogrc_line_cut:
  assumes "line = left @ EQ # right" "EQ \<notin> set left"
  shows "dialogrc_line line =
    (if LPAREN \<in> set line then
       (case re_search_group right of
          None \<Rightarrow> Inr None
        | Some group1 \<Rightarrow> Inr (Some (py_strip left, py_split COMMA group1)))
     else Inr None)"
  using assms by (simp add: dialogrc_line_def py_split1_cut)

lemma dialogrc_line_total: "dialogrc_line line \<noteq> Inl e"
proof (cases "EQ \<in> set line")
  case True
  then obtain left right where "line = left @ EQ # right" "EQ \<notin> set left"
    using split_list_first[of EQ line] by blast
  then show ?thesis by (simp add: dialogrc_line_cut split: option.splits)
next
  case False
  then show ?thesis by (simp add: dialogrc_line_def)
qed

text \<open>
  Claim C3, as amended. A line of the dialog file \<^verbatim>\<open>key=SOMETHING(A,B,C)\<close>, whose right
  side holds a parenthesized group with a non-empty interior (an opening parenthesis, at
  least one character other than the closing parenthesis, and a closing parenthesis),
  stores under the stripped key the parts between the commas of the interior of the
  leftmost such group, in order and untrimmed. An opening parenthesis directly followed by
  the closing one is passed over: it is no group.
\<close>

theorem dialogrc_line_group:
  assumes "line = left @ EQ # pre @ LPAREN # py_join [COMMA] parts @ RPAREN # post"
    and "EQ \<notin> set left"
    and "\<forall>i<length pre. pre ! i = LPAREN \<longrightarrow> Suc i < length pre \<and> pre ! Suc i = RPAREN"
    and "parts \<noteq> []" and "py_join [COMMA] parts \<noteq> []"
    and "\<forall>p\<in>set parts. COMMA \<notin> set p"
    and "RPAREN \<notin> set (py_join [COMMA] parts)"
  shows "dialogrc_line line = Inr (Some (py_strip left, parts))"
proof -
  let ?g = "py_join [COMMA] parts"
  have "re_search_group (pre @ LPAREN # ?g @ RPAREN # post) = Some ?g"
    using assms(3,5,7) by (rule re_search_group_found)
  moreover have "py_split COMMA ?g = parts"
    using assms(4,6) by (rule py_split_join)
  moreover have "LPAREN \<in> set line" using assms(1) by simp
  moreover have "line = left @ EQ # (pre @ LPAREN # ?g @ RPAREN # post)" using assms(1) by simp
  ultimately show ?thesis using assms(2) by (simp add: dialogrc_line_cut)
qed

theorem dialogrc_line_group_witness:
  "dialogrc_line (lit ''screen_color = x()(BLACK,GREEN,ON)'' @ [NEWLINE]) =
     Inr (Some (lit ''screen_color'', [lit ''BLACK'', lit ''GREEN'', lit ''ON'']))"
proof -
  let ?parts = "[lit ''BLACK'', lit ''GREEN'', lit ''ON'']"
  have 1: "lit ''screen_color = x()(BLACK,GREEN,ON)'' @ [NEWLINE] =
      lit ''screen_color '' @ EQ # lit '' x()'' @ LPAREN # py_join [COMMA] ?parts @ RPAREN # [NEWLINE]"
    by (simp add: lit_def)
  have 2: "EQ \<notin> set (lit ''screen_color '')" by (simp add: lit_def)
  have 3: "\<forall>i<length (lit '' x()''). lit '' x()'' ! i = LPAREN \<longrightarrow>
      Suc i < length (lit '' x()'') \<and> lit '' x()'' ! Suc i = RPAREN"
    by (simp add: lit_def less_Suc_eq)
  have 4: "?parts \<noteq> []" by simp
  have 5: "py_join [COMMA] ?parts \<noteq> []" by (simp add: lit_def)
  have 6: "\<forall>p\<in>set ?parts. COMMA \<notin> set p" by (simp add: lit_def)
  have 7: "RPAREN \<notin> set (py_join [COMMA] ?parts)" by (simp add: lit_def)
  from dialogrc_line_group[OF 1 2 3 4 5 6 7] show ?thesis by (simp add: example_text)
qed

text \<open>
  Claim C3, as stated, takes any parenthesized group on the right side, matched up to the
  first closing parenthesis. The line \<^verbatim>\<open>screen_color = ()\<close> has that form, with an empty
  interior, and stores nothing, where the claim has it store the split of the interior.
\<close>

theorem dialogrc_line_empty_group_counterexample:
  "lit ''screen_color = ()'' @ [NEWLINE] =
     lit ''screen_color '' @ EQ # lit '' '' @ LPAREN # [] @ RPAREN # [NEWLINE] \<and>
   EQ \<notin> set (lit ''screen_color '') \<and>
   LPAREN \<notin> set (lit '' '') \<and>
   dialogrc_line (lit ''screen_color = ()'' @ [NEWLINE]) = Inr None"
  by (simp add: dialogrc_line_def py_split1_def lit_def)

text \<open>
  Claim C9. A line of the dialog file without a parenthesized group, because it has
  no parenthesis at all or because no closing parenthesis follows an opening one on the
  right side of its first \<^verbatim>\<open>=\<close>, stores nothing and raises nothing.
\<close>

theorem dialogrc_line_no_group:
  assumes "(LPAREN \<notin> set line \<and> RPAREN \<notin> set line) \<or>
           (\<exists>left right. line = left @ EQ # right \<and> EQ \<notin> set left \<and> LPAREN \<in> set line \<and>
              (\<forall>pre post. right = pre @ LPAREN # post \<longrightarrow> RPAREN \<notin> set post))"
  shows "dialogrc_line line = Inr None"
  using assms
proof (elim disjE conjE exE)
  assume "LPAREN \<notin> set line"
  then show ?thesis by (simp add: dialogrc_line_def)
next
  fix left right
  assume a: "line = left @ EQ # right" "EQ \<notin> set left"
    "\<forall>pre post. right = pre @ LPAREN # post \<longrightarrow> RPAREN \<notin> set post"
  from a(3) have "re_search_group right = None" by (rule re_search_group_none)
  with a(1,2) show ?thesis by (simp add: dialogrc_line_cut)
qed

theorem dialogrc_line_no_group_witness:
  "dialogrc_line (lit ''use_shadow = ON'' @ [NEWLINE]) = Inr None \<and>
   dialogrc_line (lit ''screen_color = (BLACK'' @ [NEWLINE]) = Inr None"
proof -
  have "LPAREN \<notin> set (lit ''use_shadow = ON'' @ [NEWLINE]) \<and>
        RPAREN \<notin> set (lit ''use_shadow = ON'' @ [NEWLINE])"
    by (simp add: lit_def)
  then have 1: "dialogrc_line (lit ''use_shadow = ON'' @ [NEWLINE]) = Inr None"
    using dialogrc_line_no_group[of "lit ''use_shadow = ON'' @ [NEWLINE]"] by blast
  let ?right = "lit '' (BLACK'' @ [NEWLINE]"
  have a: "lit ''screen_color = (BLACK'' @ [NEWLINE] = lit ''screen_color '' @ EQ # ?right"
    by (simp add: lit_def)
  have b: "EQ \<notin> set (lit ''screen_color '')" by (simp add: lit_def)
  have c: "LPAREN \<in> set (lit ''screen_color = (BLACK'' @ [NEWLINE])" by (simp add: lit_def)
  have "RPAREN \<notin> set ?right" by (simp add: lit_def)
  then have d: "\<forall>pre post. ?right = pre @ LPAREN # post \<longrightarrow> RPAREN \<notin> set post"
    by (metis Un_iff list.set_intros(2) set_append)
  from a b c d have 2: "dialogrc_line (lit ''screen_color = (BLACK'' @ [NEWLINE]) = Inr None"
    using dialogrc_line_no_group[of "lit ''screen_color = (BLACK'' @ [NEWLINE]"] by blast
  from 1 2 show ?thesis by simp
qed

section \<open>The parsing loop and the files\<close>

lemma for_line_in_total:
  "(\<forall>l\<in>set f. \<forall>e. body l \<noteq> Inl e) \<Longrightarrow> \<exists>m. for_line_in body f d = Inr m"
proof (induction f arbitrary: d)
  case Nil
  then show ?case by simp
next
  case (Cons line f)
  from Cons.prems have rest: "\<forall>l\<in>set f. \<forall>e. body l \<noteq> Inl e" by simp
  from Cons.prems obtain item where item: "body line = Inr item" by (cases "body line") auto
  show ?case
  proof (cases item)
    case None
    with item Cons.IH[OF rest, of d] show ?thesis by simp
  next
    case (Some kv)
    obtain k v where kv: "kv = (k, v)" by (cases kv)
    from Cons.IH[OF rest] obtain m where "for_line_in body f (d(k \<mapsto> v)) = Inr m" by blast
    then show ?thesis using Some item kv by simp
  qed
qed

lemma for_line_in_other_keys:
  "(\<forall>l\<in>set f. \<forall>v. body l \<noteq> Inr (Some (k, v))) \<Longrightarrow> for_line_in body f d = Inr m \<Longrightarrow>
   m k = d k"
proof (induction f arbitrary: d)
  case Nil
  then show ?case by simp
next
  case (Cons line f)
  from Cons.prems(1) have rest: "\<forall>l\<in>set f. \<forall>v. body l \<noteq> Inr (Some (k, v))" by simp
  from Cons.prems(2) obtain item where item: "body line = Inr item"
    by (cases "body line") auto
  show ?case
  proof (cases item)
    case None
    with item Cons.prems(2) have "for_line_in body f d = Inr m" by simp
    from Cons.IH[OF rest this] show ?thesis .
  next
    case (Some kv)
    obtain k' v' where kv: "kv = (k', v')" by (cases kv)
    with Some item Cons.prems(2) have run: "for_line_in body f (d(k' \<mapsto> v')) = Inr m" by simp
    from Some item kv Cons.prems(1) have "k' \<noteq> k" by auto
    with Cons.IH[OF rest run] show ?thesis by simp
  qed
qed

lemma for_line_in_append:
  "for_line_in body (f @ g) d =
   (case for_line_in body f d of Inl e \<Rightarrow> Inl e | Inr m \<Rightarrow> for_line_in body g m)"
proof (induction f arbitrary: d)
  case Nil
  then show ?case by simp
next
  case (Cons line f)
  show ?case
  proof (cases "body line")
    case (Inl e)
    then show ?thesis by simp
  next
    case (Inr item)
    show ?thesis
    proof (cases item)
      case None
      with Inr Cons.IH[of d] show ?thesis by simp
    next
      case (Some kv)
      obtain k v where kv: "kv = (k, v)" by (cases kv)
      have "for_line_in body ((line # f) @ g) d = for_line_in body (f @ g) (d(k \<mapsto> v))"
        using Some Inr kv by simp
      also have "\<dots> = (case for_line_in body f (d(k \<mapsto> v)) of
          Inl e \<Rightarrow> Inl e | Inr m \<Rightarrow> for_line_in body g m)"
        by (rule Cons.IH)
      also have "\<dots> = (case for_line_in body (line # f) d of
          Inl e \<Rightarrow> Inl e | Inr m \<Rightarrow> for_line_in body g m)"
        using Some Inr kv by simp
      finally show ?thesis .
    qed
  qed
qed

lemma for_line_in_last_store:
  assumes total: "\<forall>l e. body l \<noteq> Inl e"
    and line: "body line = Inr (Some (k, v))"
    and later: "\<forall>l\<in>set after. \<forall>v'. body l \<noteq> Inr (Some (k, v'))"
  shows "\<exists>m. for_line_in body (before @ line # after) d = Inr m \<and> m k = Some v"
proof -
  from total obtain m0 where m0: "for_line_in body before d = Inr m0"
    using for_line_in_total[of before body d] by auto
  from total obtain m where m: "for_line_in body after (m0(k \<mapsto> v)) = Inr m"
    using for_line_in_total[of after body "m0(k \<mapsto> v)"] by auto
  have "for_line_in body (before @ line # after) d = Inr m"
    using m0 m line by (simp add: for_line_in_append)
  moreover have "m k = Some v"
    using for_line_in_other_keys[OF later m] by simp
  ultimately show ?thesis by blast
qed

lemma parse_ds2theme_file:
  "fs path = Some (File text) \<Longrightarrow>
   parse_ds2theme fs path = for_line_in ds2theme_line (file_lines (universal_newlines text)) Map.empty"
  by (simp add: parse_ds2theme_def os_path_exists_def open_read_def)

lemma parse_theme_ini_file:
  "fs path = Some (File text) \<Longrightarrow>
   parse_theme_ini fs path = for_line_in theme_ini_line (file_lines (universal_newlines text)) Map.empty"
  by (simp add: parse_theme_ini_def os_path_exists_def open_read_def)

lemma parse_dialogrc_file:
  "fs path = Some (File text) \<Longrightarrow>
   parse_dialogrc fs path = for_line_in dialogrc_line (file_lines (universal_newlines text)) Map.empty"
  by (simp add: parse_dialogrc_def os_path_exists_def open_read_def)

text \<open>
  Claim C4. For a path that does not exist each of the three parsers returns the
  empty mapping and raises nothing.
\<close>

theorem parsers_missing_file:
  assumes "fs path = None"
  shows "parse_ds2theme fs path = Inr Map.empty \<and> parse_theme_ini fs path = Inr Map.empty \<and>
         parse_dialogrc fs path = Inr Map.empty"
  using assms
  by (simp add: parse_ds2theme_def parse_theme_ini_def parse_dialogrc_def os_path_exists_def)

theorem parsers_missing_file_witness:
  "parse_ds2theme Map.empty (lit ''A.ds2theme'') = Inr Map.empty \<and>
   parse_theme_ini Map.empty (lit ''theme.ini'') = Inr Map.empty \<and>
   parse_dialogrc Map.empty (lit ''.dialogrc'') = Inr Map.empty"
  using parsers_missing_file[of Map.empty "lit ''A.ds2theme''"]
    parsers_missing_file[of Map.empty "lit ''theme.ini''"]
    parsers_missing_file[of Map.empty "lit ''.dialogrc''"]
  by simp

text \<open>
  Claim C7. In each of the three parsers, when a line of the file stores a value
  under a key and no later line stores under that key, the returned mapping holds that
  value for the key: of several lines with one key the last in file order wins.
\<close>

theorem parsers_last_duplicate_wins:
  assumes "fs path = Some (File text)"
    and "file_lines (universal_newlines text) = before @ line # after"
  shows "(ds2theme_line line = Inr (Some (k, v)) \<and>
          (\<forall>l\<in>set after. \<forall>v'. ds2theme_line l \<noteq> Inr (Some (k, v'))) \<longrightarrow>
            (\<exists>m. parse_ds2theme fs path = Inr m \<and> m k = Some v)) \<and>
         (theme_ini_line line = Inr (Some (k, v)) \<and>
          (\<forall>l\<in>set after. \<forall>v'. theme_ini_line l \<noteq> Inr (Some (k, v'))) \<longrightarrow>
            (\<exists>m. parse_theme_ini fs path = Inr m \<and> m k = Some v)) \<and>
         (dialogrc_line line = Inr (Some (k, parts)) \<and>
          (\<forall>l\<in>set after. \<forall>parts'. dialogrc_line l \<noteq> Inr (Some (k, parts'))) \<longrightarrow>
            (\<exists>m. parse_dialogrc fs path = Inr m \<and> m k = Some parts))"
proof (intro conjI impI)
  assume "ds2theme_line line = Inr (Some (k, v)) \<and>
          (\<forall>l\<in>set after. \<forall>v'. ds2theme_line l \<noteq> Inr (Some (k, v')))"
  then show "\<exists>m. parse_ds2theme fs path = Inr m \<and> m k = Some v"
    using for_line_in_last_store[of ds2theme_line line k v after before Map.empty] assms
    by (simp add: parse_ds2theme_file ds2theme_line_total)
next
  assume "theme_ini_line line = Inr (Some (k, v)) \<and>
          (\<forall>l\<in>set after. \<forall>v'. theme_ini_line l \<noteq> Inr (Some (k, v')))"
  then show "\<exists>m. parse_theme_ini fs path = Inr m \<and> m k = Some v"
    using for_line_in_last_store[of theme_ini_line line k v after before Map.empty] assms
    by (simp add: parse_theme_ini_file theme_ini_line_total)
next
  assume "dialogrc_line line = Inr (Some (k, parts)) \<and>
          (\<forall>l\<in>set after. \<forall>parts'. dialogrc_line l \<noteq> Inr (Some (k, parts')))"
  then show "\<exists>m. parse_dialogrc fs path = Inr m \<and> m k = Some parts"
    using for_line_in_last_store[of dialogrc_line line k parts after before Map.empty] assms
    by (simp add: parse_dialogrc_file dialogrc_line_total)
qed

theorem parsers_last_duplicate_wins_witness:
  "(\<exists>m. parse_ds2theme duplicate_key_files (lit ''t'') = Inr m \<and>
        m (lit ''k'') = Some (lit ''(b,c)'')) \<and>
   (\<exists>m. parse_theme_ini duplicate_key_files (lit ''t'') = Inr m \<and>
        m (lit ''k'') = Some (lit ''(b,c)'')) \<and>
   (\<exists>m. parse_dialogrc duplicate_key_files (lit ''t'') = Inr m \<and>
        m (lit ''k'') = Some [lit ''b'', lit ''c''])"
proof -
  let ?content = "lit ''k=(a)'' @ [NEWLINE] @ lit ''k=(b,c)'' @ [NEWLINE] @ lit ''j=(d)''"
  let ?line = "lit ''k=(b,c)'' @ [NEWLINE]"
  have node: "duplicate_key_files (lit ''t'') = Some (File ?content)"
    by (simp add: duplicate_key_files_def)
  have lines: "file_lines (universal_newlines ?content) =
      [lit ''k=(a)'' @ [NEWLINE]] @ ?line # [lit ''j=(d)'']"
    by (simp add: lit_def)
  have d1: "ds2theme_line ?line = Inr (Some (lit ''k'', lit ''(b,c)''))"
    by (simp add: ds2theme_line_def py_split1_def example_text)
  have d2: "\<forall>l\<in>set [lit ''j=(d)'']. \<forall>v'. ds2theme_line l \<noteq> Inr (Some (lit ''k'', v'))"
    by (simp add: ds2theme_line_def py_split1_def example_text)
  have i1: "theme_ini_line ?line = Inr (Some (lit ''k'', lit ''(b,c)''))"
    by (simp add: theme_ini_line_def py_split1_def example_text)
  have i2: "\<forall>l\<in>set [lit ''j=(d)'']. \<forall>v'. theme_ini_line l \<noteq> Inr (Some (lit ''k'', v'))"
    by (simp add: theme_ini_line_def py_split1_def example_text)
  have r1: "dialogrc_line ?line = Inr (Some (lit ''k'', [lit ''b'', lit ''c'']))"
    by (simp add: dialogrc_line_def py_split1_def example_text)
  have r2: "\<forall>l\<in>set [lit ''j=(d)'']. \<forall>parts'. dialogrc_line l \<noteq> Inr (Some (lit ''k'', parts'))"
    by (simp add: dialogrc_line_def py_split1_def example_text)
  from parsers_last_duplicate_wins[of duplicate_key_files "lit ''t''" ?content
      "[lit ''k=(a)'' @ [NEWLINE]]" ?line "[lit ''j=(d)'']" "lit ''k''" "lit ''(b,c)''"
      "[lit ''b'', lit ''c'']"]
    node lines d1 d2 i1 i2 r1 r2
  show ?thesis by blast
qed

section \<open>The reporter and the discovery of themes\<close>

lemma title_loop_returns: "title_loop ini go ks = Inr ()"
proof (induction ks)
  case Nil
  then show ?case by simp
next
  case (Cons k ks)
  then show ?case by (auto simp: dict_getitem_def split: prod.splits)
qed

lemma screen_background_absent:
  "rc (lit ''screen_color'') = None \<Longrightarrow> screen_background rt rc = Inr (lit ''black'')"
  by (simp add: screen_background_def)

lemma screen_background_short:
  "rc (lit ''screen_color'') = Some parts \<Longrightarrow> length parts < 2 \<Longrightarrow>
   screen_background rt rc = Inl IndexError"
  by (simp add: screen_background_def dict_getitem_def list_getitem_def)

lemma screen_background_long:
  "rc (lit ''screen_color'') = Some parts \<Longrightarrow> 2 \<le> length parts \<Longrightarrow>
   screen_background rt rc = Inr (py_lower rt (py_strip (parts ! 1)))"
  by (simp add: screen_background_def dict_getitem_def list_getitem_def)

lemma screen_background_not_KeyError: "screen_background rt rc \<noteq> Inl KeyError"
  by (auto simp: screen_background_def dict_getitem_def list_getitem_def split: if_splits)

lemma check_parity_report:
  assumes "parse_ds2theme fs (go_path rt name) = Inr go"
    and "parse_theme_ini fs (bash_ini_path rt name) = Inr ini"
    and "parse_dialogrc fs (bash_rc_path rt name) = Inr rc"
    and "rc (lit ''screen_color'') = None \<or>
         (\<exists>parts. rc (lit ''screen_color'') = Some parts \<and> 2 \<le> length parts)"
  shows "check_parity rt fs name = (header_line name # report_lines rt go ini rc, None)"
proof -
  from assms(4) obtain bg where "screen_background rt rc = Inr bg"
    using screen_background_absent screen_background_long by blast
  with assms(1-3) show ?thesis
    by (simp add: check_parity_def title_loop_returns)
qed

lemma check_parity_without_helper_report:
  assumes "parse_ds2theme fs (go_path rt name) = Inr go"
    and "parse_theme_ini fs (bash_ini_path rt name) = Inr ini"
    and "parse_dialogrc fs (bash_rc_path rt name) = Inr rc"
  shows "check_parity_without_helper rt fs name =
           (header_line name # report_lines rt go ini rc, None)"
  using assms by (simp add: check_parity_without_helper_def)

lemma parse_ds2theme_OSError: "parse_ds2theme fs path = Inl e \<Longrightarrow> e = OSError"
proof -
  assume a: "parse_ds2theme fs path = Inl e"
  show ?thesis
  proof (cases "fs path")
    case None
    with a show ?thesis by (simp add: parse_ds2theme_def os_path_exists_def)
  next
    case (Some n)
    show ?thesis
    proof (cases n)
      case (File content)
      with Some a for_line_in_total[of "file_lines (universal_newlines content)" ds2theme_line "Map.empty"]
      show ?thesis by (auto simp: parse_ds2theme_file ds2theme_line_total)
    next
      case (Dir names)
      with Some a show ?thesis by (simp add: parse_ds2theme_def os_path_exists_def open_read_def)
    qed
  qed
qed

lemma parse_theme_ini_OSError: "parse_theme_ini fs path = Inl e \<Longrightarrow> e = OSError"
proof -
  assume a: "parse_theme_ini fs path = Inl e"
  show ?thesis
  proof (cases "fs path")
    case None
    with a show ?thesis by (simp add: parse_theme_ini_def os_path_exists_def)
  next
    case (Some n)
    show ?thesis
    proof (cases n)
      case (File content)
      with Some a for_line_in_total[of "file_lines (universal_newlines content)" theme_ini_line "Map.empty"]
      show ?thesis by (auto simp: parse_theme_ini_file theme_ini_line_total)
    next
      case (Dir names)
      with Some a show ?thesis by (simp add: parse_theme_ini_def os_path_exists_def open_read_def)
    qed
  qed
qed

lemma parse_dialogrc_OSError: "parse_dialogrc fs path = Inl e \<Longrightarrow> e = OSError"
proof -
  assume a: "parse_dialogrc fs path = Inl e"
  show ?thesis
  proof (cases "fs path")
    case None
    with a show ?thesis by (simp add: parse_dialogrc_def os_path_exists_def)
  next
    case (Some n)
    show ?thesis
    proof (cases n)
      case (File content)
      with Some a for_line_in_total[of "file_lines (universal_newlines content)" dialogrc_line "Map.empty"]
      show ?thesis by (auto simp: parse_dialogrc_file dialogrc_line_total)
    next
      case (Dir names)
      with Some a show ?thesis by (simp add: parse_dialogrc_def os_path_exists_def open_read_def)
    qed
  qed
qed

lemma check_parity_never_KeyError: "snd (check_parity rt fs name) \<noteq> Some KeyError"
  using screen_background_not_KeyError[of rt]
  by (auto simp: check_parity_def Let_def title_loop_returns split: sum.splits
      dest: parse_ds2theme_OSError parse_theme_ini_OSError parse_dialogrc_OSError)

lemma themes_listing:
  "fs BASH_THEMES_DIR = Some (Dir names) \<Longrightarrow>
   themes rt fs =
     Inr (filter (\<lambda>d. \<exists>sub. fs (BASH_THEMES_DIR @ [path_sep rt] @ d) = Some (Dir sub)) names)"
proof -
  assume a: "fs BASH_THEMES_DIR = Some (Dir names)"
  have "\<And>d. os_path_isdir fs (os_path_join rt BASH_THEMES_DIR [d]) =
     (\<exists>sub. fs (BASH_THEMES_DIR @ [path_sep rt] @ d) = Some (Dir sub))"
    by (auto simp: os_path_isdir_def split: option.splits node.splits)
  with a show ?thesis by (simp add: themes_def os_listdir_def)
qed

lemma short_screen_nodes:
  "short_screen_files (go_path example_platform (lit ''A'')) = None"
  "short_screen_files (bash_ini_path example_platform (lit ''A'')) = None"
  "short_screen_files (bash_rc_path example_platform (lit ''A'')) =
     Some (File (lit ''screen_color = (BLACK)'' @ [NEWLINE]))"
  by (simp_all add: example_paths)

lemma short_screen_parsers:
  "parse_ds2theme short_screen_files (go_path example_platform (lit ''A'')) = Inr Map.empty"
  "parse_theme_ini short_screen_files (bash_ini_path example_platform (lit ''A'')) = Inr Map.empty"
  "parse_dialogrc short_screen_files (bash_rc_path example_platform (lit ''A'')) =
     Inr [lit ''screen_color'' \<mapsto> [lit ''BLACK'']]"
proof -
  show "parse_ds2theme short_screen_files (go_path example_platform (lit ''A'')) = Inr Map.empty"
    by (simp add: parse_ds2theme_def os_path_exists_def short_screen_nodes)
  show "parse_theme_ini short_screen_files (bash_ini_path example_platform (lit ''A'')) = Inr Map.empty"
    by (simp add: parse_theme_ini_def os_path_exists_def short_screen_nodes)
  have "file_lines (universal_newlines (lit ''screen_color = (BLACK)'' @ [NEWLINE])) =
      [lit ''screen_color = (BLACK)'' @ [NEWLINE]]"
    by (simp add: lit_def)
  moreover have "dialogrc_line (lit ''screen_color = (BLACK)'' @ [NEWLINE]) =
      Inr (Some (lit ''screen_color'', [lit ''BLACK'']))"
    by (simp add: dialogrc_line_def py_split1_def example_text)
  ultimately show "parse_dialogrc short_screen_files (bash_rc_path example_platform (lit ''A'')) =
     Inr [lit ''screen_color'' \<mapsto> [lit ''BLACK'']]"
    using parse_dialogrc_file[of short_screen_files "bash_rc_path example_platform (lit ''A'')"
        "lit ''screen_color = (BLACK)'' @ [NEWLINE]"] short_screen_nodes(3)
    by simp
qed

lemma short_screen_themes:
  "themes example_platform short_screen_files = Inr [lit ''A'', lit ''B'']"
proof -
  have "short_screen_files BASH_THEMES_DIR = Some (Dir [lit ''A'', lit ''notes.txt'', lit ''B''])"
    by (simp add: example_paths)
  with themes_listing[of short_screen_files "[lit ''A'', lit ''notes.txt'', lit ''B'']"
      example_platform]
  show ?thesis by (simp add: example_paths)
qed

lemma short_screen_check:
  "check_parity example_platform short_screen_files (lit ''A'') =
     ([header_line (lit ''A'')], Some IndexError)"
  using screen_background_short[of "[lit ''screen_color'' \<mapsto> [lit ''BLACK'']]" "[lit ''BLACK'']"
      example_platform]
  by (simp add: check_parity_def short_screen_parsers)

lemma check_parity_helper_inert:
  assumes "\<forall>rc parts. parse_dialogrc fs (bash_rc_path rt name) = Inr rc \<and>
             rc (lit ''screen_color'') = Some parts \<longrightarrow> 2 \<le> length parts"
  shows "check_parity rt fs name = check_parity_without_helper rt fs name"
proof (cases "parse_ds2theme fs (go_path rt name)")
  case (Inl e)
  then show ?thesis by (simp add: check_parity_def check_parity_without_helper_def)
next
  case go: (Inr go)
  show ?thesis
  proof (cases "parse_theme_ini fs (bash_ini_path rt name)")
    case (Inl e)
    with go show ?thesis by (simp add: check_parity_def check_parity_without_helper_def)
  next
    case ini: (Inr ini)
    show ?thesis
    proof (cases "parse_dialogrc fs (bash_rc_path rt name)")
      case (Inl e)
      with go ini show ?thesis by (simp add: check_parity_def check_parity_without_helper_def)
    next
      case rc: (Inr rc)
      from assms rc have "rc (lit ''screen_color'') = None \<or>
          (\<exists>parts. rc (lit ''screen_color'') = Some parts \<and> 2 \<le> length parts)"
        by (cases "rc (lit ''screen_color'')") auto
      from check_parity_report[OF go ini rc this] check_parity_without_helper_report[OF go ini rc]
      show ?thesis by simp
    qed
  qed
qed

text \<open>
  Claim C1. The claim is that for every discovered theme the reporter prints the header,
  the two \<^verbatim>\<open>Title\<close> values, the \<^verbatim>\<open>title_color\<close> and \<^verbatim>\<open>screen_color\<close> parts and a blank
  line, with a placeholder for an absent field. By \<open>check_parity_report\<close> and
  \<open>check_parity_never_KeyError\<close> the reporter does so, with \<^verbatim>\<open>None\<close> as the placeholder
  and never a key error, whenever the three parsers return and \<^verbatim>\<open>screen_color\<close> is absent
  or has two parts or more. On the file system \<open>short_screen_files\<close>, where the dialog
  file of theme \<^verbatim>\<open>A\<close> is the line \<^verbatim>\<open>screen_color = (BLACK)\<close>, the script prints the header
  of \<^verbatim>\<open>A\<close> and ends with an index error: the block of \<^verbatim>\<open>A\<close> is not completed and theme
  \<^verbatim>\<open>B\<close> gets no block.
\<close>

theorem script_stops_at_short_screen_color:
  "script example_platform short_screen_files = ([lit ''--- Checking A ---''], Some IndexError)"
proof -
  have "check_all example_platform short_screen_files [lit ''A'', lit ''B''] =
      ([header_line (lit ''A'')], Some IndexError)"
    by (simp add: short_screen_check)
  then have "script example_platform short_screen_files =
      ([header_line (lit ''A'')], Some IndexError)"
    by (simp add: script_def short_screen_themes)
  then show ?thesis by (simp add: header_line_def lit_def)
qed

text \<open>
  Claim C5. The claim is that removing the colour helper, the extraction of the screen
  background and the loop over the title keys never changes what is printed. The helper
  and its loop are inert on every input (\<open>title_loop_returns\<close>), and by
  \<open>check_parity_helper_inert\<close> the two reporters agree unless \<^verbatim>\<open>screen_color\<close> holds fewer
  than two parts. There the extraction raises: for theme \<^verbatim>\<open>A\<close> of \<open>short_screen_files\<close>
  the reporter prints the header only, and the reporter without the helper prints the
  whole block.
\<close>

theorem helper_changes_output_at_short_screen_color:
  "check_parity example_platform short_screen_files (lit ''A'') =
     ([lit ''--- Checking A ---''], Some IndexError) \<and>
   check_parity_without_helper example_platform short_screen_files (lit ''A'') =
     ([lit ''--- Checking A ---'', lit ''Go Title: None'', lit ''Bash Title: None'',
       lit ''Bash dialogrc Title: None'',
       lit ''Bash dialogrc Screen: ['' @ [SQUOTE] @ lit ''BLACK'' @ [SQUOTE] @ lit '']'', []],
      None)"
proof -
  have "check_parity_without_helper example_platform short_screen_files (lit ''A'') =
     (header_line (lit ''A'') # report_lines example_platform Map.empty Map.empty
        [lit ''screen_color'' \<mapsto> [lit ''BLACK'']], None)"
    by (rule check_parity_without_helper_report[OF short_screen_parsers])
  moreover have "report_lines example_platform Map.empty Map.empty
        [lit ''screen_color'' \<mapsto> [lit ''BLACK'']] =
     [lit ''Go Title: None'', lit ''Bash Title: None'', lit ''Bash dialogrc Title: None'',
      lit ''Bash dialogrc Screen: ['' @ [SQUOTE] @ lit ''BLACK'' @ [SQUOTE] @ lit '']'', []]"
    by (simp add: report_lines_def format_str_def format_list_def example_platform_def lit_def)
  moreover have "header_line (lit ''A'') = lit ''--- Checking A ---''"
    by (simp add: header_line_def lit_def)
  ultimately show ?thesis using short_screen_check by simp
qed

text \<open>
  Claim C6. When the dialog mapping returned for a theme holds fewer than two parts
  under \<^verbatim>\<open>screen_color\<close>, \<^verbatim>\<open>check_parity\<close> ends with an index error after printing the
  header line only. By \<open>py_split_short\<close> the stored parts are fewer than two exactly
  when the interior of the group had no comma.
\<close>

theorem check_parity_short_screen_color:
  assumes "parse_ds2theme fs (go_path rt name) = Inr go"
    and "parse_theme_ini fs (bash_ini_path rt name) = Inr ini"
    and "parse_dialogrc fs (bash_rc_path rt name) = Inr rc"
    and "rc (lit ''screen_color'') = Some parts"
    and "length parts < 2"
  shows "check_parity rt fs name = ([header_line name], Some IndexError)"
  using assms screen_background_short[of rc parts rt]
  by (simp add: check_parity_def)

theorem check_parity_short_screen_color_witness:
  "check_parity example_platform short_screen_files (lit ''A'') =
     ([lit ''--- Checking A ---''], Some IndexError)"
proof -
  have "[lit ''screen_color'' \<mapsto> [lit ''BLACK'']] (lit ''screen_color'') = Some [lit ''BLACK'']"
    by simp
  moreover have "length [lit ''BLACK''] < 2" by simp
  ultimately have "check_parity example_platform short_screen_files (lit ''A'') =
      ([header_line (lit ''A'')], Some IndexError)"
    using check_parity_short_screen_color[OF short_screen_parsers] by blast
  then show ?thesis by (simp add: header_line_def lit_def)
qed

text \<open>
  Claim C10. When the discovery root does not exist or is a regular file, listing it
  fails with a file system error and the script ends with that error before any line is
  printed. Otherwise the themes are the listed names that are directories under the root,
  in the order of the listing.
\<close>

theorem themes_discovery:
  "((fs BASH_THEMES_DIR = None \<or> (\<exists>text. fs BASH_THEMES_DIR = Some (File text))) \<longrightarrow>
      themes rt fs = Inl OSError \<and> script rt fs = ([], Some OSError)) \<and>
   (\<forall>names. fs BASH_THEMES_DIR = Some (Dir names) \<longrightarrow>
      themes rt fs =
        Inr (filter (\<lambda>d. \<exists>sub. fs (BASH_THEMES_DIR @ [path_sep rt] @ d) = Some (Dir sub)) names))"
proof -
  have missing: "themes rt fs = Inl OSError \<and> script rt fs = ([], Some OSError)"
    if "fs BASH_THEMES_DIR = None \<or> (\<exists>text. fs BASH_THEMES_DIR = Some (File text))"
  proof -
    from that have "themes rt fs = Inl OSError"
      by (auto simp: themes_def os_listdir_def)
    then show ?thesis by (simp add: script_def)
  qed
  show ?thesis using missing themes_listing[of fs _ rt] by blast
qed

theorem themes_discovery_witness:
  "themes example_platform Map.empty = Inl OSError \<and>
   script example_platform Map.empty = ([], Some OSError) \<and>
   themes example_platform short_screen_files = Inr [lit ''A'', lit ''B'']"
proof -
  have "(Map.empty :: filesystem) BASH_THEMES_DIR = None" by simp
  with themes_discovery[of Map.empty example_platform]
  have 1: "themes example_platform Map.empty = Inl OSError \<and>
      script example_platform Map.empty = ([], Some OSError)"
    by blast
  have "short_screen_files BASH_THEMES_DIR = Some (Dir [lit ''A'', lit ''notes.txt'', lit ''B''])"
    by (simp add: example_paths)
  with themes_discovery[of short_screen_files example_platform]
  have "themes example_platform short_screen_files =
      Inr (filter (\<lambda>d. \<exists>sub. short_screen_files
              (BASH_THEMES_DIR @ [path_sep example_platform] @ d) = Some (Dir sub))
            [lit ''A'', lit ''notes.txt'', lit ''B''])"
    by blast
  then have 2: "themes example_platform short_screen_files = Inr [lit ''A'', lit ''B'']"
    by (simp add: example_paths)
  from 1 2 show ?thesis by simp
qed

end
